theory Spec2Isabelle
  imports Main "HOL-Library.Sublist"
begin

section \<open>The filter-expression compiler of the postgres storage backend\<close>

text \<open>
  The Go function \<^verbatim>\<open>addFilterExpressionToQuery(query *string, args *[]interface{}, expr)\<close>
  appends a SQL condition to \<^verbatim>\<open>*query\<close> and the bound values to \<^verbatim>\<open>*args\<close>, mutating both
  through the pointers, and returns an error or nil. The model passes the two buffers as
  an explicit state and returns the state the caller sees afterwards together with the
  error, so what is left behind by a failing call is part of the result.
\<close>

subsection \<open>Data model\<close>

text \<open>
  Modelled from the spec: the type \<^verbatim>\<open>storage.FilterExpression\<close> is declared in package
  \<^verbatim>\<open>storage\<close>, which is not among the sources. It is an interface; the type switch of the
  compiler knows three implementations (an And and an Or, both slices of expressions,
  and an Equals with the fields \<^verbatim>\<open>Fields\<close> and \<^verbatim>\<open>Value\<close>) and sends every other dynamic
  type to its default branch. The fourth constructor stands for any such other type and
  carries what \<^verbatim>\<open>%T\<close> prints for it. The type of the values is left open.
\<close>

datatype 'v FilterExpression =
    AndFilterExpression "'v FilterExpression list"
  | OrFilterExpression "'v FilterExpression list"
  | EqualsFilterExpression "string list" 'v
  | OtherFilterExpression string

text \<open>
  The two errors built by \<^verbatim>\<open>fmt.Errorf\<close>: \<^verbatim>\<open>"unsupported equals filter: %v"\<close> with the
  fields of the node, and \<^verbatim>\<open>"unsupported filter expression: %T"\<close> with the dynamic type.
\<close>

datatype error =
    UnsupportedEqualsFilter "string list"
  | UnsupportedFilterExpression string

text \<open>What the two pointers of the Go function point to.\<close>

record 'v buffers =
  query :: string
  args :: "'v list"

subsection \<open>Library functions of Go used by the compiler\<close>

text \<open>\<^verbatim>\<open>strings.Join(elems, sep)\<close>.\<close>

fun strings_Join :: "string list \<Rightarrow> string \<Rightarrow> string" where
  "strings_Join [] sep = []"
| "strings_Join [x] sep = x"
| "strings_Join (x # y # ys) sep = x @ sep @ strings_Join (y # ys) sep"

text \<open>
  \<^verbatim>\<open>fmt.Sprintf("$%d", n)\<close> for the \<open>n\<close> the compiler passes, \<^verbatim>\<open>len(*args)+1\<close>, which is
  positive and, the length of a slice in memory, far from the overflow of Go's \<^verbatim>\<open>int\<close>:
  a dollar sign and the decimal digits of \<open>n\<close>.
\<close>

definition digit_char :: "nat \<Rightarrow> char" where
  "digit_char d = char_of (48 + d)"

fun decimal :: "nat \<Rightarrow> string" where
  "decimal n = (if n < 10 then [digit_char n] else decimal (n div 10) @ [digit_char (n mod 10)])"

declare decimal.simps [simp del]

definition Sprintf_dollar_d :: "nat \<Rightarrow> string" where
  "Sprintf_dollar_d n = CHR ''$'' # decimal n"

subsection \<open>The compiler\<close>

text \<open>
  \<open>schemaName\<close> and \<open>recordsTableName\<close> are package-level constants declared in a file
  that is not among the sources; the model takes them as the first two arguments.

  \<open>compoundExpression\<close> is the closure of the Go function, and \<open>compoundExpression_range\<close>
  the \<^verbatim>\<open>for i, subexpr := range subexprs\<close> loop inside it, with the index \<open>i\<close> of the
  next child. A failing child returns from the loop and from the closure at once, before
  the closing parenthesis is appended.
\<close>

fun addFilterExpressionToQuery ::
    "string \<Rightarrow> string \<Rightarrow> 'v buffers \<Rightarrow> 'v FilterExpression \<Rightarrow> error option \<times> 'v buffers"
  and compoundExpression ::
    "string \<Rightarrow> string \<Rightarrow> 'v buffers \<Rightarrow> 'v FilterExpression list \<Rightarrow> string \<Rightarrow> error option \<times> 'v buffers"
  and compoundExpression_range ::
    "string \<Rightarrow> string \<Rightarrow> string \<Rightarrow> nat \<Rightarrow> 'v buffers \<Rightarrow> 'v FilterExpression list \<Rightarrow> error option \<times> 'v buffers"
where
  "addFilterExpressionToQuery schemaName recordsTableName st (AndFilterExpression subexprs) =
     compoundExpression schemaName recordsTableName st subexprs ''AND''"
| "addFilterExpressionToQuery schemaName recordsTableName st (OrFilterExpression subexprs) =
     compoundExpression schemaName recordsTableName st subexprs ''OR''"
| "addFilterExpressionToQuery schemaName recordsTableName st (EqualsFilterExpression fs v) =
     (let key = strings_Join fs ''.'' in
      if key = ''type'' then
        (None, \<lparr>query = query st @ schemaName @ ''.'' @ recordsTableName @ ''.type = ''
                            @ Sprintf_dollar_d (length (args st) + 1),
                args = args st @ [v]\<rparr>)
      else if key = ''id'' then
        (None, \<lparr>query = query st @ schemaName @ ''.'' @ recordsTableName @ ''.id = ''
                            @ Sprintf_dollar_d (length (args st) + 1),
                args = args st @ [v]\<rparr>)
      else if key = ''$index'' then
        (None, \<lparr>query = query st @ schemaName @ ''.'' @ recordsTableName @ ''.index_cidr >>= ''
                            @ Sprintf_dollar_d (length (args st) + 1),
                args = args st @ [v]\<rparr>)
      else (Some (UnsupportedEqualsFilter fs), st))"
| "addFilterExpressionToQuery schemaName recordsTableName st (OtherFilterExpression t) =
     (Some (UnsupportedFilterExpression t), st)"
| "compoundExpression schemaName recordsTableName st subexprs op =
     (case compoundExpression_range schemaName recordsTableName op 0
             (st\<lparr>query := query st @ ''( ''\<rparr>) subexprs of
        (Some err, st') \<Rightarrow> (Some err, st')
      | (None, st') \<Rightarrow> (None, st'\<lparr>query := query st' @ '' )''\<rparr>))"
| "compoundExpression_range schemaName recordsTableName op i st [] = (None, st)"
| "compoundExpression_range schemaName recordsTableName op i st (subexpr # rest) =
     (let st1 = (if i > 0 then st\<lparr>query := query st @ '' '' @ op @ '' ''\<rparr> else st) in
      case addFilterExpressionToQuery schemaName recordsTableName st1 subexpr of
        (Some err, st2) \<Rightarrow> (Some err, st2)
      | (None, st2) \<Rightarrow> compoundExpression_range schemaName recordsTableName op (i + 1) st2 rest)"

subsection \<open>Reading the emitted text\<close>

text \<open>
  The positional placeholders of a query text, left to right: every dollar sign that is
  followed by at least one decimal digit, with the number its longest run of digits
  denotes.
\<close>

definition isDigit :: "char \<Rightarrow> bool" where
  "isDigit c = (48 \<le> (of_char c :: nat) \<and> (of_char c :: nat) \<le> 57)"

definition digit_val :: "char \<Rightarrow> nat" where
  "digit_val c = of_char c - 48"

definition nat_of_digits :: "string \<Rightarrow> nat" where
  "nat_of_digits ds = foldl (\<lambda>n c. 10 * n + digit_val c) 0 ds"

fun placeholders :: "string \<Rightarrow> nat list" where
  "placeholders [] = []"
| "placeholders (c # cs) =
     (if c = CHR ''$'' \<and> takeWhile isDigit cs \<noteq> []
      then nat_of_digits (takeWhile isDigit cs) # placeholders cs
      else placeholders cs)"

text \<open>
  A text that may follow a placeholder without changing its number: it does not start
  with a digit.
\<close>

definition boundary :: "string \<Rightarrow> bool" where
  "boundary ys = (case ys of [] \<Rightarrow> True | c # _ \<Rightarrow> \<not> isDigit c)"

text \<open>
  \<open>numbered n m frag\<close>: whatever admissible text follows it, the fragment contributes
  exactly the placeholders \<open>n + 1, ..., m\<close>, in this order.
\<close>

definition numbered :: "nat \<Rightarrow> nat \<Rightarrow> string \<Rightarrow> bool" where
  "numbered n m frag =
     (n \<le> m \<and> (\<forall>ys. boundary ys \<longrightarrow> placeholders (frag @ ys) = [n + 1 ..< m + 1] @ placeholders ys))"

subsection \<open>Notions of the specification\<close>

text \<open>The keys of the fixed field mapping.\<close>

definition supportedKey :: "string \<Rightarrow> bool" where
  "supportedKey k = (k = ''type'' \<or> k = ''id'' \<or> k = ''$index'')"

text \<open>
  The nodes of a tree that the compiler does not support, in pre-order, each as the error
  the compiler reports for it: an Equals node whose joined field path is no key of the
  mapping, and a node of any other variant.
\<close>

fun unsupportedNodes :: "'v FilterExpression \<Rightarrow> error list" where
  "unsupportedNodes (AndFilterExpression es) = concat (map unsupportedNodes es)"
| "unsupportedNodes (OrFilterExpression es) = concat (map unsupportedNodes es)"
| "unsupportedNodes (EqualsFilterExpression fs v) =
     (if supportedKey (strings_Join fs ''.'') then [] else [UnsupportedEqualsFilter fs])"
| "unsupportedNodes (OtherFilterExpression t) = [UnsupportedFilterExpression t]"

fun firstError :: "error list \<Rightarrow> error option" where
  "firstError [] = None"
| "firstError (x # xs) = Some x"

text \<open>The values of the Equals nodes of a tree, in pre-order.\<close>

fun equalsValues :: "'v FilterExpression \<Rightarrow> 'v list" where
  "equalsValues (AndFilterExpression es) = concat (map equalsValues es)"
| "equalsValues (OrFilterExpression es) = concat (map equalsValues es)"
| "equalsValues (EqualsFilterExpression fs v) = [v]"
| "equalsValues (OtherFilterExpression t) = []"

fun isCompound :: "'v FilterExpression \<Rightarrow> bool" where
  "isCompound (AndFilterExpression es) = True"
| "isCompound (OrFilterExpression es) = True"
| "isCompound (EqualsFilterExpression fs v) = False"
| "isCompound (OtherFilterExpression t) = False"

text \<open>
  The fragment of an expression: the text the compiler itself appends for it to an empty
  query when the parameter list is \<open>a\<close>. The fragments of the children of a compound
  node: each child compiled with the parameter list its preceding siblings have left.
\<close>

definition emitted :: "string \<Rightarrow> string \<Rightarrow> 'v list \<Rightarrow> 'v FilterExpression \<Rightarrow> string" where
  "emitted sn tn a e = query (snd (addFilterExpressionToQuery sn tn \<lparr>query = [], args = a\<rparr> e))"

fun childFragments :: "string \<Rightarrow> string \<Rightarrow> 'v list \<Rightarrow> 'v FilterExpression list \<Rightarrow> string list" where
  "childFragments sn tn a [] = []"
| "childFragments sn tn a (c # cs) =
     emitted sn tn a c
       # childFragments sn tn (args (snd (addFilterExpressionToQuery sn tn \<lparr>query = [], args = a\<rparr> c))) cs"

text \<open>A result with \<open>q\<close> put in front of its query text.\<close>

definition prepend :: "string \<Rightarrow> error option \<times> 'v buffers \<Rightarrow> error option \<times> 'v buffers" where
  "prepend q res = (fst res, (snd res)\<lparr>query := q @ query (snd res)\<rparr>)"

text \<open>Both buffers of a result extend those of the state before the call.\<close>

definition grows :: "'v buffers \<Rightarrow> error option \<times> 'v buffers \<Rightarrow> bool" where
  "grows st res = (prefix (query st) (query (snd res)) \<and> prefix (args st) (args (snd res)))"

section \<open>Properties of the library functions and of the compiler\<close>

lemma isDigit_digit_char: "d < 10 \<Longrightarrow> isDigit (digit_char d)"
  by (simp add: isDigit_def digit_char_def)

lemma digit_val_digit_char: "d < 10 \<Longrightarrow> digit_val (digit_char d) = d"
  by (simp add: digit_val_def digit_char_def)

lemma not_isDigit_dollar: "\<not> isDigit (CHR ''$'')"
  by (simp add: isDigit_def)

lemma decimal_small: "n < 10 \<Longrightarrow> decimal n = [digit_char n]"
  by (subst decimal.simps) simp

lemma decimal_large: "\<not> n < 10 \<Longrightarrow> decimal n = decimal (n div 10) @ [digit_char (n mod 10)]"
  by (subst decimal.simps) simp

lemma decimal_digits: "c \<in> set (decimal n) \<Longrightarrow> isDigit c"
proof (induction n arbitrary: c rule: decimal.induct)
  case (1 n)
  show ?case
  proof (cases "n < 10")
    case True
    with "1.prems" show ?thesis by (simp add: decimal_small isDigit_digit_char)
  next
    case False
    with "1.prems" have "c \<in> set (decimal (n div 10)) \<or> c = digit_char (n mod 10)"
      by (auto simp add: decimal_large)
    with False "1.IH" show ?thesis by (auto simp: isDigit_digit_char)
  qed
qed

lemma decimal_nonempty: "decimal n \<noteq> []"
  by (subst decimal.simps) simp

lemma nat_of_digits_snoc: "nat_of_digits (ds @ [c]) = 10 * nat_of_digits ds + digit_val c"
  by (simp add: nat_of_digits_def)

lemma nat_of_digits_decimal: "nat_of_digits (decimal n) = n"
proof (induction n rule: decimal.induct)
  case (1 n)
  show ?case
  proof (cases "n < 10")
    case True
    then show ?thesis by (simp add: decimal_small nat_of_digits_def digit_val_digit_char)
  next
    case False
    with "1.IH" show ?thesis
      by (simp add: decimal_large nat_of_digits_snoc digit_val_digit_char)
  qed
qed

lemma placeholders_no_dollar: "CHR ''$'' \<notin> set xs \<Longrightarrow> placeholders xs = []"
  by (induction xs) auto

lemma takeWhile_append_stop:
  "ys = [] \<or> \<not> P (hd ys) \<Longrightarrow> takeWhile P (xs @ ys) = takeWhile P xs"
  by (induction xs) (cases ys; auto)+

lemma placeholders_append:
  "ys = [] \<or> \<not> isDigit (hd ys) \<Longrightarrow> placeholders (xs @ ys) = placeholders xs @ placeholders ys"
  by (induction xs) (auto simp: takeWhile_append_stop)

lemma placeholders_decimal: "placeholders (decimal n) = []"
  by (rule placeholders_no_dollar) (use decimal_digits not_isDigit_dollar in blast)

lemma takeWhile_decimal: "takeWhile isDigit (decimal n) = decimal n"
  using decimal_digits by simp

lemma placeholders_Sprintf: "placeholders (Sprintf_dollar_d n) = [n]"
  by (simp add: Sprintf_dollar_d_def takeWhile_decimal decimal_nonempty nat_of_digits_decimal placeholders_decimal)

lemmas compile_induct = addFilterExpressionToQuery_compoundExpression_compoundExpression_range.induct

lemma range_unfold:
  assumes "st1 = (if i > 0 then st\<lparr>query := query st @ '' '' @ op @ '' ''\<rparr> else st)"
    and "addFilterExpressionToQuery sn tn st1 e = (r, st2)"
  shows "compoundExpression_range sn tn op i st (e # es) =
     (case r of Some err \<Rightarrow> (Some err, st2)
      | None \<Rightarrow> compoundExpression_range sn tn op (i + 1) st2 es)"
  using assms by (simp add: Let_def split: option.splits)

lemma compound_unfold:
  assumes "compoundExpression_range sn tn op 0 (st\<lparr>query := query st @ ''( ''\<rparr>) es = (r, s)"
  shows "compoundExpression sn tn st es op =
     (case r of Some err \<Rightarrow> (Some err, s) | None \<Rightarrow> (None, s\<lparr>query := query s @ '' )''\<rparr>))"
  using assms by (simp split: option.splits)

lemma firstError_append:
  "firstError (xs @ ys) = (case firstError xs of Some x \<Rightarrow> Some x | None \<Rightarrow> firstError ys)"
  by (cases xs) simp_all

lemma firstError_None_iff: "firstError xs = None \<longleftrightarrow> xs = []"
  by (cases xs) simp_all

lemma err_eq:
  "fst (addFilterExpressionToQuery sn tn st e) = firstError (unsupportedNodes e)"
  "fst (compoundExpression sn tn st es op) = firstError (concat (map unsupportedNodes es))"
  "fst (compoundExpression_range sn tn op i st es) = firstError (concat (map unsupportedNodes es))"
proof (induction sn tn st e and sn tn st es op and sn tn op i st es rule: compile_induct)
  case (3 sn tn st fs v)
  show ?case by (simp add: supportedKey_def Let_def)
next
  case (5 sn tn st es op)
  obtain r s where run: "compoundExpression_range sn tn op 0 (st\<lparr>query := query st @ ''( ''\<rparr>) es = (r, s)"
    by (cases "compoundExpression_range sn tn op 0 (st\<lparr>query := query st @ ''( ''\<rparr>) es")
  have r: "firstError (concat (map unsupportedNodes es)) = r"
    using "5.IH" run by simp
  show ?case
    unfolding compound_unfold[OF run] r by (cases r) simp_all
next
  case (7 sn tn op i st e es)
  define st1 where "st1 = (if i > 0 then st\<lparr>query := query st @ '' '' @ op @ '' ''\<rparr> else st)"
  obtain r st2 where run: "addFilterExpressionToQuery sn tn st1 e = (r, st2)"
    by (cases "addFilterExpressionToQuery sn tn st1 e")
  have r: "firstError (unsupportedNodes e) = r"
    using "7.IH"(1)[OF st1_def] run by simp
  show ?case
  proof (cases r)
    case None
    have "fst (compoundExpression_range sn tn op (i + 1) st2 es)
          = firstError (concat (map unsupportedNodes es))"
      using "7.IH"(2)[OF st1_def run[symmetric] None] .
    with None r show ?thesis
      unfolding range_unfold[OF st1_def run] by (simp add: firstError_append)
  next
    case (Some err)
    with r show ?thesis
      unfolding range_unfold[OF st1_def run] by (simp add: firstError_append)
  qed
qed simp_all

lemma err_none_iff:
  "fst (addFilterExpressionToQuery sn tn st e) = None \<longleftrightarrow> unsupportedNodes e = []"
  by (simp add: err_eq(1) firstError_None_iff)

lemma err_first_node:
  "unsupportedNodes e \<noteq> [] \<Longrightarrow>
     fst (addFilterExpressionToQuery sn tn st e) = Some (hd (unsupportedNodes e))"
  by (cases "unsupportedNodes e") (simp_all add: err_eq(1))
lemma prepend_pair [simp]: "prepend q (r, s) = (r, s\<lparr>query := q @ query s\<rparr>)"
  by (simp add: prepend_def)

lemma shift:
  "addFilterExpressionToQuery sn tn (st\<lparr>query := q @ query st\<rparr>) e
     = prepend q (addFilterExpressionToQuery sn tn st e)"
  "compoundExpression sn tn (st\<lparr>query := q @ query st\<rparr>) es op
     = prepend q (compoundExpression sn tn st es op)"
  "compoundExpression_range sn tn op i (st\<lparr>query := q @ query st\<rparr>) es
     = prepend q (compoundExpression_range sn tn op i st es)"
proof (induction sn tn st e and sn tn st es op and sn tn op i st es rule: compile_induct)
  case (3 sn tn st fs v)
  show ?case by (simp add: Let_def)
next
  case (5 sn tn st es op)
  obtain r s where run: "compoundExpression_range sn tn op 0 (st\<lparr>query := query st @ ''( ''\<rparr>) es = (r, s)"
    by (cases "compoundExpression_range sn tn op 0 (st\<lparr>query := query st @ ''( ''\<rparr>) es")
  from "5.IH" run
  have "compoundExpression_range sn tn op 0 (st\<lparr>query := q @ query st @ ''( ''\<rparr>) es
        = (r, s\<lparr>query := q @ query s\<rparr>)"
    by simp
  with run show ?case by (cases r) simp_all
next
  case (7 sn tn op i st e es)
  define st1 where "st1 = (if i > 0 then st\<lparr>query := query st @ '' '' @ op @ '' ''\<rparr> else st)"
  obtain r st2 where run: "addFilterExpressionToQuery sn tn st1 e = (r, st2)"
    by (cases "addFilterExpressionToQuery sn tn st1 e")
  have st1': "(if i > 0 then (st\<lparr>query := q @ query st\<rparr>)\<lparr>query := query (st\<lparr>query := q @ query st\<rparr>) @ '' '' @ op @ '' ''\<rparr>
                else st\<lparr>query := q @ query st\<rparr>) = st1\<lparr>query := q @ query st1\<rparr>"
    by (simp add: st1_def)
  have run': "addFilterExpressionToQuery sn tn (st1\<lparr>query := q @ query st1\<rparr>) e = (r, st2\<lparr>query := q @ query st2\<rparr>)"
    using "7.IH"(1)[OF st1_def] run by simp
  have L: "compoundExpression_range sn tn op i (st\<lparr>query := q @ query st\<rparr>) (e # es) =
     (case r of Some err \<Rightarrow> (Some err, st2\<lparr>query := q @ query st2\<rparr>)
      | None \<Rightarrow> compoundExpression_range sn tn op (i + 1) (st2\<lparr>query := q @ query st2\<rparr>) es)"
    unfolding compoundExpression_range.simps Let_def st1' run' by (simp split: option.splits)
  have R: "compoundExpression_range sn tn op i st (e # es) =
     (case r of Some err \<Rightarrow> (Some err, st2)
      | None \<Rightarrow> compoundExpression_range sn tn op (i + 1) st2 es)"
    unfolding compoundExpression_range.simps Let_def st1_def[symmetric] run by (simp split: option.splits)
  show ?case
  proof (cases r)
    case None
    have "compoundExpression_range sn tn op (i + 1) (st2\<lparr>query := q @ query st2\<rparr>) es
          = prepend q (compoundExpression_range sn tn op (i + 1) st2 es)"
      using "7.IH"(2)[OF st1_def run[symmetric] None] .
    with None show ?thesis unfolding L R by simp
  next
    case (Some err)
    then show ?thesis unfolding L R by simp
  qed
qed simp_all

lemma shift_from_empty:
  "addFilterExpressionToQuery sn tn st e
     = prepend (query st) (addFilterExpressionToQuery sn tn (st\<lparr>query := []\<rparr>) e)"
  using shift(1)[where st = "st\<lparr>query := []\<rparr>" and q = "query st"] by simp

lemma grows_trans:
  "grows st (r, st1) \<Longrightarrow> grows st1 res \<Longrightarrow> grows st res"
  by (auto simp: grows_def)

lemma only_grows:
  "grows st (addFilterExpressionToQuery sn tn st e)"
  "grows st (compoundExpression sn tn st es op)"
  "grows st (compoundExpression_range sn tn op i st es)"
proof (induction sn tn st e and sn tn st es op and sn tn op i st es rule: compile_induct)
  case (3 sn tn st fs v)
  show ?case by (simp add: Let_def grows_def)
next
  case (4 sn tn st t)
  show ?case by (simp add: grows_def)
next
  case (5 sn tn st es op)
  obtain r s where run: "compoundExpression_range sn tn op 0 (st\<lparr>query := query st @ ''( ''\<rparr>) es = (r, s)"
    by (cases "compoundExpression_range sn tn op 0 (st\<lparr>query := query st @ ''( ''\<rparr>) es")
  have "grows (st\<lparr>query := query st @ ''( ''\<rparr>) (r, s)"
    using "5.IH" run by simp
  then have "prefix (query st @ ''( '') (query s)" "prefix (args st) (args s)"
    by (simp_all add: grows_def)
  then have "prefix (query st) (query s)" "prefix (args st) (args s)"
    using append_prefixD by blast+
  then show ?case
    unfolding compound_unfold[OF run] by (cases r) (simp_all add: grows_def prefix_prefix)
next
  case (6 sn tn op i st)
  show ?case by (simp add: grows_def)
next
  case (7 sn tn op i st e es)
  define st1 where "st1 = (if i > 0 then st\<lparr>query := query st @ '' '' @ op @ '' ''\<rparr> else st)"
  obtain r st2 where run: "addFilterExpressionToQuery sn tn st1 e = (r, st2)"
    by (cases "addFilterExpressionToQuery sn tn st1 e")
  have a: "grows st (r, st1)" by (simp add: st1_def grows_def)
  have b: "grows st1 (r, st2)" using "7.IH"(1)[OF st1_def] run by simp
  have c: "grows st (r, st2)" using grows_trans[OF a b] .
  show ?case
  proof (cases r)
    case None
    have "grows st2 (compoundExpression_range sn tn op (i + 1) st2 es)"
      using "7.IH"(2)[OF st1_def run[symmetric] None] .
    with c None show ?thesis
      unfolding range_unfold[OF st1_def run] by (simp add: grows_trans)
  next
    case (Some err)
    with c show ?thesis unfolding range_unfold[OF st1_def run] by simp
  qed
qed simp_all

lemma args_success:
  "fst (addFilterExpressionToQuery sn tn st e) = None \<Longrightarrow>
     args (snd (addFilterExpressionToQuery sn tn st e)) = args st @ equalsValues e"
  "fst (compoundExpression sn tn st es op) = None \<Longrightarrow>
     args (snd (compoundExpression sn tn st es op)) = args st @ concat (map equalsValues es)"
  "fst (compoundExpression_range sn tn op i st es) = None \<Longrightarrow>
     args (snd (compoundExpression_range sn tn op i st es)) = args st @ concat (map equalsValues es)"
proof (induction sn tn st e and sn tn st es op and sn tn op i st es rule: compile_induct)
  case (3 sn tn st fs v)
  then show ?case by (simp add: Let_def split: if_splits)
next
  case (5 sn tn st es op)
  obtain r s where run: "compoundExpression_range sn tn op 0 (st\<lparr>query := query st @ ''( ''\<rparr>) es = (r, s)"
    by (cases "compoundExpression_range sn tn op 0 (st\<lparr>query := query st @ ''( ''\<rparr>) es")
  from "5.prems" have r: "r = None"
    unfolding compound_unfold[OF run] by (cases r) simp_all
  with "5.IH" run show ?case
    unfolding compound_unfold[OF run] by simp
next
  case (7 sn tn op i st e es)
  define st1 where "st1 = (if i > 0 then st\<lparr>query := query st @ '' '' @ op @ '' ''\<rparr> else st)"
  obtain r st2 where run: "addFilterExpressionToQuery sn tn st1 e = (r, st2)"
    by (cases "addFilterExpressionToQuery sn tn st1 e")
  from "7.prems" have r: "r = None"
    unfolding range_unfold[OF st1_def run] by (cases r) simp_all
  have a1: "args st1 = args st" by (simp add: st1_def)
  have a2: "args st2 = args st1 @ equalsValues e"
    using "7.IH"(1)[OF st1_def] run r by simp
  have ok: "fst (compoundExpression_range sn tn op (i + 1) st2 es) = None"
    using "7.prems" r unfolding range_unfold[OF st1_def run] by simp
  have "args (snd (compoundExpression_range sn tn op (i + 1) st2 es)) = args st2 @ concat (map equalsValues es)"
    using "7.IH"(2)[OF st1_def run[symmetric] r ok] .
  with a1 a2 r show ?case
    unfolding range_unfold[OF st1_def run] by simp
qed simp_all

lemma boundary_simps [simp]:
  "boundary []" "boundary (c # cs) \<longleftrightarrow> \<not> isDigit c"
  by (simp_all add: boundary_def)

lemma placeholders_append_boundary:
  "boundary ys \<Longrightarrow> placeholders (xs @ ys) = placeholders xs @ placeholders ys"
  by (rule placeholders_append) (cases ys; simp)

lemma placeholders_text: "CHR ''$'' \<notin> set t \<Longrightarrow> placeholders (t @ ys) = placeholders ys"
  by (induction t) auto

lemma numbered_text: "CHR ''$'' \<notin> set t \<Longrightarrow> numbered n n t"
  by (simp add: numbered_def placeholders_text)

lemma numbered_text_then: "CHR ''$'' \<notin> set t \<Longrightarrow> numbered n m g \<Longrightarrow> numbered n m (t @ g)"
  by (simp add: numbered_def placeholders_text)

lemma upt_glue: "n \<le> m \<Longrightarrow> m \<le> k \<Longrightarrow> [n + 1 ..< m + 1] @ [m + 1 ..< k + 1] = [n + 1 ..< (k::nat) + 1]"
proof -
  assume le: "n \<le> m" "m \<le> k"
  then obtain d where k: "k = m + d" using le_Suc_ex by blast
  have "[n + 1 ..< (m + 1) + d] = [n + 1 ..< m + 1] @ [m + 1 ..< (m + 1) + d]"
    using le(1) by (intro upt_add_eq_append) simp
  then show ?thesis by (simp add: k add.commute add.left_commute)
qed

lemma numbered_then:
  assumes "numbered n m f" "numbered m k g" "boundary g"
  shows "numbered n k (f @ g)"
proof -
  have le: "n \<le> m" "m \<le> k" using assms by (simp_all add: numbered_def)
  have "placeholders ((f @ g) @ ys) = [n + 1 ..< k + 1] @ placeholders ys" if b: "boundary ys" for ys
  proof -
    have bg: "boundary (g @ ys)" using assms(3) b by (cases g) simp_all
    have "placeholders (f @ (g @ ys)) = [n + 1 ..< m + 1] @ placeholders (g @ ys)"
      using assms(1) bg by (simp add: numbered_def)
    also have "placeholders (g @ ys) = [m + 1 ..< k + 1] @ placeholders ys"
      using assms(2) b by (simp add: numbered_def)
    also have "[n + 1 ..< m + 1] @ [m + 1 ..< k + 1] @ placeholders ys = [n + 1 ..< k + 1] @ placeholders ys"
      using upt_glue[OF le] by (metis append.assoc)
    finally show ?thesis by simp
  qed
  with le show ?thesis by (simp add: numbered_def)
qed

lemma numbered_Sprintf: "numbered n (n + 1) (Sprintf_dollar_d (n + 1))"
proof -
  have "placeholders (Sprintf_dollar_d (n + 1) @ ys) = [n + 1] @ placeholders ys" if "boundary ys" for ys
    using that by (simp add: placeholders_append_boundary placeholders_Sprintf)
  then show ?thesis by (simp add: numbered_def)
qed

lemma not_isDigit_space: "\<not> isDigit (CHR '' '')"
  by (simp add: isDigit_def)

lemma numbered_success:
  "CHR ''$'' \<notin> set sn \<Longrightarrow> CHR ''$'' \<notin> set tn \<Longrightarrow>
   fst (addFilterExpressionToQuery sn tn st e) = None \<Longrightarrow>
     \<exists>frag. query (snd (addFilterExpressionToQuery sn tn st e)) = query st @ frag \<and>
       numbered (length (args st)) (length (args (snd (addFilterExpressionToQuery sn tn st e)))) frag"
  "CHR ''$'' \<notin> set sn \<Longrightarrow> CHR ''$'' \<notin> set tn \<Longrightarrow> CHR ''$'' \<notin> set op \<Longrightarrow>
   fst (compoundExpression sn tn st es op) = None \<Longrightarrow>
     \<exists>frag. query (snd (compoundExpression sn tn st es op)) = query st @ frag \<and>
       numbered (length (args st)) (length (args (snd (compoundExpression sn tn st es op)))) frag"
  "CHR ''$'' \<notin> set sn \<Longrightarrow> CHR ''$'' \<notin> set tn \<Longrightarrow> CHR ''$'' \<notin> set op \<Longrightarrow>
   fst (compoundExpression_range sn tn op i st es) = None \<Longrightarrow>
     \<exists>frag. query (snd (compoundExpression_range sn tn op i st es)) = query st @ frag \<and>
       numbered (length (args st)) (length (args (snd (compoundExpression_range sn tn op i st es)))) frag \<and>
       (0 < i \<longrightarrow> boundary frag)"
proof (induction sn tn st e and sn tn st es op and sn tn op i st es rule: compile_induct)
  case (1 sn tn st es)
  then show ?case by simp
next
  case (2 sn tn st es)
  then show ?case by simp
next
  case (3 sn tn st fs v)
  let ?n = "length (args st)"
  have col: "CHR ''$'' \<notin> set (sn @ ''.'' @ tn @ c)" if "CHR ''$'' \<notin> set c" for c
    using "3.prems"(1,2) that by simp
  have n: "numbered ?n (?n + 1) ((sn @ ''.'' @ tn @ c) @ Sprintf_dollar_d (?n + 1))"
    if "CHR ''$'' \<notin> set c" for c
    using numbered_text_then[OF col[OF that] numbered_Sprintf] .
  from "3.prems"(3) consider
      (t) "strings_Join fs ''.'' = ''type''"
    | (i) "strings_Join fs ''.'' \<noteq> ''type''" "strings_Join fs ''.'' = ''id''"
    | (x) "strings_Join fs ''.'' \<noteq> ''type''" "strings_Join fs ''.'' \<noteq> ''id''" "strings_Join fs ''.'' = ''$index''"
    by (auto simp: Let_def split: if_splits)
  then show ?case
  proof cases
    case t
    have "numbered ?n (?n + 1) ((sn @ ''.'' @ tn @ ''.type = '') @ Sprintf_dollar_d (?n + 1))"
      by (rule n) simp
    with t show ?thesis by (simp add: Let_def)
  next
    case i
    have "numbered ?n (?n + 1) ((sn @ ''.'' @ tn @ ''.id = '') @ Sprintf_dollar_d (?n + 1))"
      by (rule n) simp
    with i show ?thesis by (simp add: Let_def)
  next
    case x
    have "numbered ?n (?n + 1) ((sn @ ''.'' @ tn @ ''.index_cidr >>= '') @ Sprintf_dollar_d (?n + 1))"
      by (rule n) simp
    with x show ?thesis by (simp add: Let_def)
  qed
next
  case (4 sn tn st t)
  then show ?case by simp
next
  case (5 sn tn st es op)
  let ?st0 = "st\<lparr>query := query st @ ''( ''\<rparr>"
  obtain r s where run: "compoundExpression_range sn tn op 0 ?st0 es = (r, s)"
    by (cases "compoundExpression_range sn tn op 0 ?st0 es")
  from "5.prems"(4) have r: "r = None"
    unfolding compound_unfold[OF run] by (cases r) simp_all
  from "5.IH"[OF "5.prems"(1,2,3)] run r
  obtain rf where rf: "query s = query ?st0 @ rf" "numbered (length (args st)) (length (args s)) rf"
    by auto
  have "numbered (length (args s)) (length (args s)) '' )''"
    by (rule numbered_text) simp
  from numbered_then[OF rf(2) this] have "numbered (length (args st)) (length (args s)) (rf @ '' )'')"
    by (simp add: not_isDigit_space)
  then have "numbered (length (args st)) (length (args s)) (''( '' @ rf @ '' )'')"
    by (intro numbered_text_then[where t = "''( ''"]) simp_all
  with rf(1) r show ?case
    unfolding compound_unfold[OF run] by simp
next
  case (6 sn tn op i st)
  show ?case by (simp add: numbered_text)
next
  case (7 sn tn op i st e es)
  define sep where "sep = (if i > 0 then '' '' @ op @ '' '' else [])"
  define st1 where "st1 = (if i > 0 then st\<lparr>query := query st @ '' '' @ op @ '' ''\<rparr> else st)"
  obtain r st2 where run: "addFilterExpressionToQuery sn tn st1 e = (r, st2)"
    by (cases "addFilterExpressionToQuery sn tn st1 e")
  from "7.prems"(4) have r: "r = None"
    unfolding range_unfold[OF st1_def run] by (cases r) simp_all
  have ok: "fst (compoundExpression_range sn tn op (i + 1) st2 es) = None"
    using "7.prems"(4) r unfolding range_unfold[OF st1_def run] by simp
  have q1: "query st1 = query st @ sep" and a1: "args st1 = args st"
    by (simp_all add: st1_def sep_def)
  have sepd: "CHR ''$'' \<notin> set sep" using "7.prems"(3) by (simp add: sep_def)
  from "7.IH"(1)[OF st1_def "7.prems"(1,2)] run r
  obtain cf where cf: "query st2 = query st1 @ cf" "numbered (length (args st1)) (length (args st2)) cf"
    by auto
  let ?res = "compoundExpression_range sn tn op (i + 1) st2 es"
  from "7.IH"(2)[OF st1_def run[symmetric] r "7.prems"(1,2,3) ok]
  obtain rf where rf: "query (snd ?res) = query st2 @ rf"
      "numbered (length (args st2)) (length (args (snd ?res))) rf" "boundary rf"
    by auto
  have "numbered (length (args st)) (length (args (snd ?res))) (cf @ rf)"
    using numbered_then[OF cf(2) rf(2,3)] a1 by simp
  then have n: "numbered (length (args st)) (length (args (snd ?res))) (sep @ cf @ rf)"
    using sepd by (intro numbered_text_then[where t = sep])
  have b: "0 < i \<longrightarrow> boundary (sep @ cf @ rf)"
    by (simp add: sep_def not_isDigit_space)
  have q: "query (snd ?res) = query st @ sep @ cf @ rf"
    using rf(1) cf(1) q1 by simp
  from n b q r show ?case
    unfolding range_unfold[OF st1_def run] by simp
qed

lemma strings_Join_Cons:
  "strings_Join (x # xs) sep = x @ (if xs = [] then [] else sep @ strings_Join xs sep)"
  by (cases xs) simp_all

lemma childFragments_Nil_iff [simp]: "childFragments sn tn a es = [] \<longleftrightarrow> es = []"
  by (cases es) simp_all

lemma run_success:
  assumes "unsupportedNodes e = []"
  shows "addFilterExpressionToQuery sn tn st e =
     (None, \<lparr>query = query st @ emitted sn tn (args st) e, args = args st @ equalsValues e\<rparr>)"
proof -
  let ?st0 = "\<lparr>query = [], args = args st\<rparr>"
  have st0: "st\<lparr>query := []\<rparr> = ?st0" by simp
  obtain r s where run: "addFilterExpressionToQuery sn tn st e = (r, s)"
    by (cases "addFilterExpressionToQuery sn tn st e")
  have r: "r = None" using err_none_iff[of sn tn st e] run assms by simp
  have a: "args s = args st @ equalsValues e"
    using args_success(1)[of sn tn st e] run r by simp
  have q: "query s = query st @ emitted sn tn (args st) e"
    using shift_from_empty[of sn tn st e] run
    by (simp add: emitted_def st0 prepend_def)
  from run r a q show ?thesis by simp
qed

lemma range_success:
  assumes "\<forall>c\<in>set es. unsupportedNodes c = []"
  shows "compoundExpression_range sn tn op i st es =
     (None, \<lparr>query = query st @ (if 0 < i \<and> es \<noteq> [] then '' '' @ op @ '' '' else [])
                        @ strings_Join (childFragments sn tn (args st) es) ('' '' @ op @ '' ''),
             args = args st @ concat (map equalsValues es)\<rparr>)"
  using assms
proof (induction es arbitrary: i st)
  case Nil
  show ?case by simp
next
  case (Cons e es)
  from Cons.prems have e: "unsupportedNodes e = []" and es: "\<forall>c\<in>set es. unsupportedNodes c = []"
    by simp_all
  define st1 where "st1 = (if i > 0 then st\<lparr>query := query st @ '' '' @ op @ '' ''\<rparr> else st)"
  define st2 where "st2 = \<lparr>query = query st1 @ emitted sn tn (args st1) e, args = args st1 @ equalsValues e\<rparr>"
  have run: "addFilterExpressionToQuery sn tn st1 e = (None, st2)"
    unfolding st2_def by (rule run_success[OF e])
  have a1: "args st1 = args st" by (simp add: st1_def)
  have a2: "args (snd (addFilterExpressionToQuery sn tn \<lparr>query = [], args = args st\<rparr> e)) = args st @ equalsValues e"
    by (simp add: run_success[OF e])
  have "compoundExpression_range sn tn op i st (e # es) = compoundExpression_range sn tn op (i + 1) st2 es"
    unfolding range_unfold[OF st1_def run] by simp
  also have "\<dots> = (None, \<lparr>query = query st2 @ (if es \<noteq> [] then '' '' @ op @ '' '' else [])
                        @ strings_Join (childFragments sn tn (args st2) es) ('' '' @ op @ '' ''),
             args = args st2 @ concat (map equalsValues es)\<rparr>)"
    using Cons.IH[OF es, of "i + 1" st2] by simp
  finally show ?case
    by (simp add: st2_def st1_def a2 strings_Join_Cons del: strings_Join.simps(2,3))
qed

lemma range_append:
  "compoundExpression_range sn tn op i st pre = (None, s) \<Longrightarrow>
     compoundExpression_range sn tn op i st (pre @ rest) =
       compoundExpression_range sn tn op (i + length pre) s rest"
proof (induction pre arbitrary: i st)
  case Nil
  then show ?case by simp
next
  case (Cons e es)
  define st1 where "st1 = (if i > 0 then st\<lparr>query := query st @ '' '' @ op @ '' ''\<rparr> else st)"
  obtain r st2 where run: "addFilterExpressionToQuery sn tn st1 e = (r, st2)"
    by (cases "addFilterExpressionToQuery sn tn st1 e")
  from Cons.prems have r: "r = None"
    unfolding range_unfold[OF st1_def run] by (cases r) simp_all
  from Cons.prems r have "compoundExpression_range sn tn op (i + 1) st2 es = (None, s)"
    unfolding range_unfold[OF st1_def run] by simp
  from Cons.IH[OF this]
  have "compoundExpression_range sn tn op (i + 1) st2 (es @ rest) =
        compoundExpression_range sn tn op (i + 1 + length es) s rest" .
  moreover have "compoundExpression_range sn tn op i st ((e # es) @ rest) =
        compoundExpression_range sn tn op (i + 1) st2 (es @ rest)"
    using range_unfold[OF st1_def run, of "es @ rest"] r by simp
  ultimately show ?case by simp
qed

lemma strings_Join_key:
  assumes "strings_Join fs ''.'' = k" "CHR ''.'' \<notin> set k" "k \<noteq> []"
  shows "fs = [k]"
proof (cases fs)
  case Nil
  with assms show ?thesis by simp
next
  case (Cons x xs)
  show ?thesis
  proof (cases xs)
    case Nil
    with Cons assms show ?thesis by simp
  next
    case (Cons y ys)
    with \<open>fs = x # xs\<close> assms show ?thesis by auto
  qed
qed

lemma supportedKey_iff:
  "supportedKey (strings_Join fs ''.'') \<longleftrightarrow> fs = [''type''] \<or> fs = [''id''] \<or> fs = [''$index'']"
proof
  assume "supportedKey (strings_Join fs ''.'')"
  then consider "strings_Join fs ''.'' = ''type''" | "strings_Join fs ''.'' = ''id''"
    | "strings_Join fs ''.'' = ''$index''"
    by (auto simp: supportedKey_def)
  then show "fs = [''type''] \<or> fs = [''id''] \<or> fs = [''$index'']"
  proof cases
    case 1 from strings_Join_key[OF 1] show ?thesis by simp
  next
    case 2 from strings_Join_key[OF 2] show ?thesis by simp
  next
    case 3 from strings_Join_key[OF 3] show ?thesis by simp
  qed
next
  assume "fs = [''type''] \<or> fs = [''id''] \<or> fs = [''$index'']"
  then show "supportedKey (strings_Join fs ''.'')"
    by (auto simp: supportedKey_def)
qed

lemma hd_unsupported_field:
  assumes "xs \<noteq> []" "\<forall>t. UnsupportedFilterExpression t \<notin> set xs"
  shows "\<exists>fs. hd xs = UnsupportedEqualsFilter fs"
proof (cases xs)
  case Nil
  with assms show ?thesis by simp
next
  case (Cons x ys)
  with assms(2) show ?thesis by (cases x) auto
qed

lemma hd_unsupported_variant:
  assumes "xs \<noteq> []" "\<forall>fs. UnsupportedEqualsFilter fs \<notin> set xs"
  shows "\<exists>t. hd xs = UnsupportedFilterExpression t"
proof (cases xs)
  case Nil
  with assms show ?thesis by simp
next
  case (Cons x ys)
  with assms(2) show ?thesis by (cases x) auto
qed

lemma run_any:
  "addFilterExpressionToQuery sn tn st e =
     (firstError (unsupportedNodes e),
      \<lparr>query = query st @ emitted sn tn (args st) e,
       args = args (snd (addFilterExpressionToQuery sn tn \<lparr>query = [], args = args st\<rparr> e))\<rparr>)"
proof -
  have st0: "st\<lparr>query := []\<rparr> = \<lparr>query = [], args = args st\<rparr>" by simp
  obtain r s where run: "addFilterExpressionToQuery sn tn \<lparr>query = [], args = args st\<rparr> e = (r, s)"
    by (cases "addFilterExpressionToQuery sn tn \<lparr>query = [], args = args st\<rparr> e")
  have "addFilterExpressionToQuery sn tn st e = (r, s\<lparr>query := query st @ query s\<rparr>)"
    using shift_from_empty[of sn tn st e] run by (simp add: st0)
  moreover have "r = firstError (unsupportedNodes e)"
    using err_eq(1)[of sn tn "\<lparr>query = [], args = args st\<rparr>" e] run by simp
  ultimately show ?thesis
    using run by (simp add: emitted_def)
qed

lemma strings_Join_snoc:
  "xs \<noteq> [] \<Longrightarrow> strings_Join (xs @ [x]) sep = strings_Join xs sep @ sep @ x"
proof (induction xs)
  case Nil
  then show ?case by simp
next
  case (Cons y ys)
  then show ?case by (cases ys) simp_all
qed

lemma childFragments_append:
  assumes "\<forall>x\<in>set pre. unsupportedNodes x = []"
  shows "childFragments sn tn a (pre @ rest) =
     childFragments sn tn a pre @ childFragments sn tn (a @ concat (map equalsValues pre)) rest"
  using assms
proof (induction pre arbitrary: a)
  case Nil
  show ?case by simp
next
  case (Cons e es)
  then have e: "unsupportedNodes e = []" and es: "\<forall>x\<in>set es. unsupportedNodes x = []"
    by simp_all
  have a: "args (snd (addFilterExpressionToQuery sn tn \<lparr>query = [], args = a\<rparr> e)) = a @ equalsValues e"
    by (simp add: run_success[OF e])
  show ?case
    using Cons.IH[OF es, of "a @ equalsValues e"] by (simp add: a)
qed

lemma range_fail:
  assumes pre: "\<forall>x\<in>set pre. unsupportedNodes x = []" and c: "unsupportedNodes c \<noteq> []"
  shows "compoundExpression_range sn tn op i st (pre @ c # post) =
     (Some (hd (unsupportedNodes c)),
      \<lparr>query = query st @ (if 0 < i then '' '' @ op @ '' '' else [])
                 @ strings_Join (childFragments sn tn (args st) (pre @ [c])) ('' '' @ op @ '' ''),
       args = args (snd (addFilterExpressionToQuery sn tn
                \<lparr>query = [], args = args st @ concat (map equalsValues pre)\<rparr> c))\<rparr>)"
proof -
  define sep where "sep = '' '' @ op @ '' ''"
  define s where "s = \<lparr>query = query st @ (if 0 < i \<and> pre \<noteq> [] then sep else [])
                        @ strings_Join (childFragments sn tn (args st) pre) sep,
             args = args st @ concat (map equalsValues pre)\<rparr>"
  have run_pre: "compoundExpression_range sn tn op i st pre = (None, s)"
    unfolding s_def sep_def by (rule range_success[OF pre])
  define st1 where "st1 = (if i + length pre > 0 then s\<lparr>query := query s @ '' '' @ op @ '' ''\<rparr> else s)"
  define st2 where "st2 = \<lparr>query = query st1 @ emitted sn tn (args st1) c,
       args = args (snd (addFilterExpressionToQuery sn tn \<lparr>query = [], args = args st1\<rparr> c))\<rparr>"
  obtain err errs where nodes: "unsupportedNodes c = err # errs"
    using c by (cases "unsupportedNodes c") simp_all
  have run_c: "addFilterExpressionToQuery sn tn st1 c = (Some err, st2)"
    unfolding st2_def using run_any[of sn tn st1 c] nodes by simp
  have "compoundExpression_range sn tn op i st (pre @ c # post)
        = compoundExpression_range sn tn op (i + length pre) s (c # post)"
    by (rule range_append[OF run_pre])
  also have "\<dots> = (Some err, st2)"
    unfolding range_unfold[OF st1_def run_c] by simp
  finally have res: "compoundExpression_range sn tn op i st (pre @ c # post) = (Some err, st2)" .
  have a1: "args st1 = args st @ concat (map equalsValues pre)"
    by (simp add: st1_def s_def)
  have frs: "childFragments sn tn (args st) (pre @ [c])
       = childFragments sn tn (args st) pre @ [emitted sn tn (args st @ concat (map equalsValues pre)) c]"
    by (simp add: childFragments_append[OF pre])
  have q: "query st2 = query st @ (if 0 < i then sep else [])
                 @ strings_Join (childFragments sn tn (args st) (pre @ [c])) sep"
  proof (cases "pre = []")
    case True
    then show ?thesis by (simp add: st2_def st1_def s_def sep_def)
  next
    case False
    then have "childFragments sn tn (args st) pre \<noteq> []" by simp
    from strings_Join_snoc[OF this] False show ?thesis
      unfolding frs by (simp add: st2_def st1_def s_def sep_def)
  qed
  show ?thesis
    unfolding res using q nodes by (simp add: st2_def a1 sep_def)
qed

lemma compound_fail:
  assumes pre: "\<forall>x\<in>set pre. unsupportedNodes x = []" and c: "unsupportedNodes c \<noteq> []"
  shows "compoundExpression sn tn st (pre @ c # post) op =
     (Some (hd (unsupportedNodes c)),
      \<lparr>query = query st @ ''( ''
                 @ strings_Join (childFragments sn tn (args st) (pre @ [c])) ('' '' @ op @ '' ''),
       args = args (snd (addFilterExpressionToQuery sn tn
                \<lparr>query = [], args = args st @ concat (map equalsValues pre)\<rparr> c))\<rparr>)"
  using compound_unfold[OF range_fail[OF pre c, of sn tn op 0 "st\<lparr>query := query st @ ''( ''\<rparr>" post]]
  by simp

lemma compound_grows_paren:
  "prefix (query st @ ''( '') (query (snd (compoundExpression sn tn st es op)))"
proof -
  let ?st0 = "st\<lparr>query := query st @ ''( ''\<rparr>"
  obtain r s where run: "compoundExpression_range sn tn op 0 ?st0 es = (r, s)"
    by (cases "compoundExpression_range sn tn op 0 ?st0 es")
  have "grows ?st0 (r, s)"
    using only_grows(3)[of ?st0 sn tn op 0 es] run by simp
  then have "prefix (query st @ ''( '') (query s)"
    by (simp add: grows_def)
  then show ?thesis
    unfolding compound_unfold[OF run] by (cases r) (simp_all add: prefix_prefix)
qed

section \<open>The claims of the specification\<close>

subsection \<open>Claim C1\<close>

text \<open>
  Claim C1. When compilation succeeds, the text appended to the query holds as many
  placeholders as values were appended to the parameter list, and their indices are, in
  this order, the number of parameters before the call plus one up to the number of
  parameters after the call: consecutive, without gaps or repeats. The schema and table
  names are constants that are not among the sources; the statement is for names without
  a dollar sign, so that every placeholder of the text is one the compiler wrote.
\<close>

theorem placeholders_contiguous:
  assumes "CHR ''$'' \<notin> set schemaName" and "CHR ''$'' \<notin> set recordsTableName"
    and "addFilterExpressionToQuery schemaName recordsTableName st e = (None, st')"
  shows "\<exists>frag new. query st' = query st @ frag \<and> args st' = args st @ new
           \<and> length (placeholders frag) = length new
           \<and> placeholders frag = [length (args st) + 1 ..< length (args st) + length new + 1]"
proof -
  from assms(3) have ok: "fst (addFilterExpressionToQuery schemaName recordsTableName st e) = None"
    by simp
  from numbered_success(1)[OF assms(1,2) ok] assms(3)
  obtain frag where frag: "query st' = query st @ frag"
      "numbered (length (args st)) (length (args st')) frag"
    by auto
  from args_success(1)[OF ok] assms(3) have a: "args st' = args st @ equalsValues e"
    by simp
  from frag(2) have "placeholders (frag @ []) = [length (args st) + 1 ..< length (args st') + 1] @ placeholders []"
    unfolding numbered_def by (metis boundary_simps(1))
  then have p: "placeholders frag = [length (args st) + 1 ..< length (args st) + length (equalsValues e) + 1]"
    by (simp add: a)
  have "length (placeholders frag) = length (equalsValues e)"
    by (simp only: p length_upt add_diff_cancel_left' add.assoc)
  with frag(1) a p show ?thesis by blast
qed

theorem placeholders_contiguous_witness:
  "CHR ''$'' \<notin> set ''pomerium'' \<and> CHR ''$'' \<notin> set ''records''
   \<and> addFilterExpressionToQuery ''pomerium'' ''records'' \<lparr>query = ''WHERE '', args = [''p'']\<rparr>
        (AndFilterExpression [EqualsFilterExpression [''type''] ''x'',
           OrFilterExpression [EqualsFilterExpression [''id''] ''y'', EqualsFilterExpression [''$index''] ''z'']])
      = (None, \<lparr>query = ''WHERE ( pomerium.records.type = $2 AND ( pomerium.records.id = $3 OR pomerium.records.index_cidr >>= $4 ) )'',
                args = [''p'', ''x'', ''y'', ''z'']\<rparr>)
   \<and> placeholders ''( pomerium.records.type = $2 AND ( pomerium.records.id = $3 OR pomerium.records.index_cidr >>= $4 ) )''
      = [2, 3, 4]"
proof -
  have h1: "CHR ''$'' \<notin> set ''pomerium''" and h2: "CHR ''$'' \<notin> set ''records''" by simp_all
  have h3: "addFilterExpressionToQuery ''pomerium'' ''records'' \<lparr>query = ''WHERE '', args = [''p'']\<rparr>
        (AndFilterExpression [EqualsFilterExpression [''type''] ''x'',
           OrFilterExpression [EqualsFilterExpression [''id''] ''y'', EqualsFilterExpression [''$index''] ''z'']])
      = (None, \<lparr>query = ''WHERE ( pomerium.records.type = $2 AND ( pomerium.records.id = $3 OR pomerium.records.index_cidr >>= $4 ) )'',
                args = [''p'', ''x'', ''y'', ''z'']\<rparr>)"
    by code_simp
  from placeholders_contiguous[OF h1 h2 h3]
  obtain frag new where f: "''WHERE ( pomerium.records.type = $2 AND ( pomerium.records.id = $3 OR pomerium.records.index_cidr >>= $4 ) )'' = ''WHERE '' @ frag"
     "[''p'', ''x'', ''y'', ''z''] = [''p''] @ new"
     "placeholders frag = [length [''p''] + 1 ..< length [''p''] + length new + 1]"
    by auto
  from f(2) have new: "new = [''x'', ''y'', ''z'']" by simp
  from f(1) have frag: "frag = ''( pomerium.records.type = $2 AND ( pomerium.records.id = $3 OR pomerium.records.index_cidr >>= $4 ) )''"
    by simp
  have u: "[Suc 0 + 1 ..< Suc 0 + 3 + 1] = [2, 3, 4]" by code_simp
  from f(3) have "placeholders frag = [2, 3, 4]"
    unfolding new using u by simp
  with h1 h2 h3 frag show ?thesis by blast
qed

subsection \<open>Claim C2\<close>

text \<open>
  Claim C2 says that after a failing call the query text and the parameter list are as
  they were before it. The compiler appends through the two pointers as it goes and
  returns at the first error: what it has appended until then stays.
\<close>

theorem failure_counterexample:
  "addFilterExpressionToQuery ''pomerium'' ''records'' \<lparr>query = ''WHERE '', args = []\<rparr>
     (AndFilterExpression [EqualsFilterExpression [''type''] ''x'', EqualsFilterExpression [''nope''] ''y''])
   = (Some (UnsupportedEqualsFilter [''nope'']),
      \<lparr>query = ''WHERE ( pomerium.records.type = $1 AND '', args = [''x'']\<rparr>)"
  by code_simp

text \<open>
  Claim C2, amended. When compilation returns an error and the root of the tree is not an
  And or Or node, the query text and the parameter list are unchanged. When the root is
  an And or Or node, the query text is changed: it is the text before the call followed
  by at least the opening \<open>"( "\<close>, and the parameter list extends the one before the call.
\<close>

theorem failure_keeps_partial_output:
  assumes "fst (addFilterExpressionToQuery schemaName recordsTableName st e) \<noteq> None"
  shows "(\<not> isCompound e \<longrightarrow> snd (addFilterExpressionToQuery schemaName recordsTableName st e) = st)
     \<and> (isCompound e \<longrightarrow>
          prefix (query st @ ''( '') (query (snd (addFilterExpressionToQuery schemaName recordsTableName st e)))
        \<and> query (snd (addFilterExpressionToQuery schemaName recordsTableName st e)) \<noteq> query st
        \<and> prefix (args st) (args (snd (addFilterExpressionToQuery schemaName recordsTableName st e))))"
proof (cases e)
  case (AndFilterExpression es)
  then have ic: "isCompound e" by simp
  have p: "prefix (query st @ ''( '') (query (snd (addFilterExpressionToQuery schemaName recordsTableName st e)))"
    unfolding AndFilterExpression addFilterExpressionToQuery.simps by (rule compound_grows_paren)
  then have "length (query st @ ''( '') \<le> length (query (snd (addFilterExpressionToQuery schemaName recordsTableName st e)))"
    by (rule prefix_length_le)
  then have "query (snd (addFilterExpressionToQuery schemaName recordsTableName st e)) \<noteq> query st"
    by auto
  with p ic only_grows(1)[of st schemaName recordsTableName e] show ?thesis
    by (simp add: grows_def)
next
  case (OrFilterExpression es)
  then have ic: "isCompound e" by simp
  have p: "prefix (query st @ ''( '') (query (snd (addFilterExpressionToQuery schemaName recordsTableName st e)))"
    unfolding OrFilterExpression addFilterExpressionToQuery.simps by (rule compound_grows_paren)
  then have "length (query st @ ''( '') \<le> length (query (snd (addFilterExpressionToQuery schemaName recordsTableName st e)))"
    by (rule prefix_length_le)
  then have "query (snd (addFilterExpressionToQuery schemaName recordsTableName st e)) \<noteq> query st"
    by auto
  with p ic only_grows(1)[of st schemaName recordsTableName e] show ?thesis
    by (simp add: grows_def)
next
  case (EqualsFilterExpression fs v)
  with assms show ?thesis by (simp add: Let_def split: if_splits)
next
  case (OtherFilterExpression t)
  then show ?thesis by simp
qed

theorem failure_keeps_partial_output_witness:
  "fst (addFilterExpressionToQuery ''pomerium'' ''records'' \<lparr>query = ''WHERE '', args = [''p'']\<rparr>
         (EqualsFilterExpression [''nope''] ''y'')) \<noteq> None
   \<and> snd (addFilterExpressionToQuery ''pomerium'' ''records'' \<lparr>query = ''WHERE '', args = [''p'']\<rparr>
         (EqualsFilterExpression [''nope''] ''y'')) = \<lparr>query = ''WHERE '', args = [''p'']\<rparr>
   \<and> fst (addFilterExpressionToQuery ''pomerium'' ''records'' \<lparr>query = ''WHERE '', args = [''p'']\<rparr>
         (OrFilterExpression [EqualsFilterExpression [''nope''] ''y''])) \<noteq> None
   \<and> prefix ''WHERE ( '' (query (snd (addFilterExpressionToQuery ''pomerium'' ''records'' \<lparr>query = ''WHERE '', args = [''p'']\<rparr>
         (OrFilterExpression [EqualsFilterExpression [''nope''] ''y'']))))"
proof -
  let ?st = "\<lparr>query = ''WHERE '', args = [''p'']\<rparr>"
  have h1: "fst (addFilterExpressionToQuery ''pomerium'' ''records'' ?st (EqualsFilterExpression [''nope''] ''y'')) \<noteq> None"
    by (simp add: err_none_iff supportedKey_def)
  have h2: "fst (addFilterExpressionToQuery ''pomerium'' ''records'' ?st
              (OrFilterExpression [EqualsFilterExpression [''nope''] ''y''])) \<noteq> None"
    by (simp add: err_none_iff supportedKey_def)
  show ?thesis
    using h1 h2 failure_keeps_partial_output[OF h1] failure_keeps_partial_output[OF h2]
    by (simp del: addFilterExpressionToQuery.simps)
qed

subsection \<open>Claim C3\<close>

text \<open>
  Claim C3. An Equals node whose field path joins to the key \<open>$index\<close> succeeds: it appends
  the schema- and table-qualified column \<open>index_cidr\<close>, the containment operator \<open>>>=\<close> (not
  the equality sign) and one placeholder, the one numbered with the next parameter index,
  and it appends the supplied value to the parameter list.
\<close>

theorem index_uses_containment:
  assumes "strings_Join fs ''.'' = ''$index''"
  shows "addFilterExpressionToQuery schemaName recordsTableName st (EqualsFilterExpression fs v)
     = (None, \<lparr>query = query st @ schemaName @ ''.'' @ recordsTableName @ ''.index_cidr >>= ''
                         @ Sprintf_dollar_d (length (args st) + 1),
               args = args st @ [v]\<rparr>)
   \<and> placeholders (Sprintf_dollar_d (length (args st) + 1)) = [length (args st) + 1]
   \<and> placeholders ''.index_cidr >>= '' = []"
  using assms by (simp add: Let_def placeholders_Sprintf)

theorem index_uses_containment_witness:
  "strings_Join [''$index''] ''.'' = ''$index''
   \<and> addFilterExpressionToQuery ''pomerium'' ''records'' \<lparr>query = [], args = []\<rparr>
        (EqualsFilterExpression [''$index''] ''10.0.0.1'')
     = (None, \<lparr>query = ''pomerium.records.index_cidr >>= $1'', args = [''10.0.0.1'']\<rparr>)"
proof -
  have h: "strings_Join [''$index''] ''.'' = ''$index''" by simp
  have d: "Sprintf_dollar_d (0 + 1) = ''$1''" by code_simp
  show ?thesis
    using h d index_uses_containment[OF h, where schemaName = "''pomerium''" and recordsTableName = "''records''"
        and st = "\<lparr>query = [], args = []\<rparr>" and v = "''10.0.0.1''"]
    by simp
qed

subsection \<open>Claim C4\<close>

text \<open>
  Claim C4 says that a tree with an Equals node of unknown field path always fails with
  the unsupported-field error carrying that path. The compiler stops at the first node it
  cannot compile: when a node of an unsupported variant comes earlier in pre-order the
  error is the one of that node, and of two unknown field paths only the first is
  reported.
\<close>

theorem unknown_field_counterexample:
  "addFilterExpressionToQuery ''pomerium'' ''records'' \<lparr>query = [], args = []\<rparr>
     (AndFilterExpression [OtherFilterExpression ''<nil>'', EqualsFilterExpression [''nope''] ''v''])
   = (Some (UnsupportedFilterExpression ''<nil>''), \<lparr>query = ''( '', args = []\<rparr>)
   \<and> addFilterExpressionToQuery ''pomerium'' ''records'' \<lparr>query = [], args = []\<rparr>
     (AndFilterExpression [EqualsFilterExpression [''a''] ''v'', EqualsFilterExpression [''b''] ''w''])
   = (Some (UnsupportedEqualsFilter [''a'']), \<lparr>query = ''( '', args = []\<rparr>)"
  by code_simp

text \<open>
  Claim C4, amended. For every tree containing an Equals node whose joined field path is
  not a key of the mapping, wherever the node sits, compilation fails, and the error is
  the one of the first unsupported node of the tree in pre-order. When the tree has no
  node of an unsupported variant this is an unsupported-field error, carrying the field
  path of the first such Equals node.
\<close>

theorem unknown_field_fails:
  assumes "UnsupportedEqualsFilter fs \<in> set (unsupportedNodes e)"
  shows "fst (addFilterExpressionToQuery schemaName recordsTableName st e) = Some (hd (unsupportedNodes e))
       \<and> ((\<forall>t. UnsupportedFilterExpression t \<notin> set (unsupportedNodes e)) \<longrightarrow>
            (\<exists>fs'. fst (addFilterExpressionToQuery schemaName recordsTableName st e)
                      = Some (UnsupportedEqualsFilter fs')))"
proof -
  from assms have ne: "unsupportedNodes e \<noteq> []" by auto
  show ?thesis
    using err_first_node[OF ne] hd_unsupported_field[OF ne] by auto
qed

theorem unknown_field_fails_witness:
  "UnsupportedEqualsFilter [''nope''] \<in> set (unsupportedNodes
      (OrFilterExpression [EqualsFilterExpression [''id''] ''a'',
         AndFilterExpression [EqualsFilterExpression [''nope''] ''b'', EqualsFilterExpression [''x'', ''y''] ''c'']]))
   \<and> fst (addFilterExpressionToQuery ''pomerium'' ''records'' \<lparr>query = [], args = []\<rparr>
      (OrFilterExpression [EqualsFilterExpression [''id''] ''a'',
         AndFilterExpression [EqualsFilterExpression [''nope''] ''b'', EqualsFilterExpression [''x'', ''y''] ''c'']]))
     = Some (UnsupportedEqualsFilter [''nope''])"
proof -
  let ?e = "OrFilterExpression [EqualsFilterExpression [''id''] ''a'',
         AndFilterExpression [EqualsFilterExpression [''nope''] ''b'', EqualsFilterExpression [''x'', ''y''] ''c'']]"
  have n: "unsupportedNodes ?e = [UnsupportedEqualsFilter [''nope''], UnsupportedEqualsFilter [''x'', ''y'']]"
    by code_simp
  have h: "UnsupportedEqualsFilter [''nope''] \<in> set (unsupportedNodes ?e)"
    unfolding n by simp
  show ?thesis
    using h unknown_field_fails[OF h, where schemaName = "''pomerium''" and recordsTableName = "''records''"
        and st = "\<lparr>query = [], args = []\<rparr>"]
    unfolding n by simp
qed

subsection \<open>Claim C5\<close>

text \<open>
  Claim C5 says that a tree with a node of an unsupported variant always fails with the
  unsupported-expression-type error. When an Equals node of unknown field path comes
  earlier in pre-order, the compiler stops there and reports the unsupported-field error.
\<close>

theorem unknown_variant_counterexample:
  "addFilterExpressionToQuery ''pomerium'' ''records'' \<lparr>query = [], args = []\<rparr>
     (AndFilterExpression [EqualsFilterExpression [''nope''] ''v'', OtherFilterExpression ''<nil>''])
   = (Some (UnsupportedEqualsFilter [''nope'']), \<lparr>query = ''( '', args = []\<rparr>)"
  by code_simp

text \<open>
  Claim C5, amended. For every tree containing a node whose variant is outside And, Or
  and Equals, compilation fails, and the error is the one of the first unsupported node
  of the tree in pre-order. When the tree has no Equals node of unknown field path this
  is an unsupported-expression-type error, carrying the discriminant of the first such
  node.
\<close>

theorem unknown_variant_fails:
  assumes "UnsupportedFilterExpression t \<in> set (unsupportedNodes e)"
  shows "fst (addFilterExpressionToQuery schemaName recordsTableName st e) = Some (hd (unsupportedNodes e))
       \<and> ((\<forall>fs. UnsupportedEqualsFilter fs \<notin> set (unsupportedNodes e)) \<longrightarrow>
            (\<exists>t'. fst (addFilterExpressionToQuery schemaName recordsTableName st e)
                      = Some (UnsupportedFilterExpression t')))"
proof -
  from assms have ne: "unsupportedNodes e \<noteq> []" by auto
  show ?thesis
    using err_first_node[OF ne] hd_unsupported_variant[OF ne] by auto
qed

theorem unknown_variant_fails_witness:
  "UnsupportedFilterExpression ''<nil>'' \<in> set (unsupportedNodes
      (OrFilterExpression [EqualsFilterExpression [''id''] ''a'',
         AndFilterExpression [OtherFilterExpression ''<nil>'', OtherFilterExpression ''int'']]))
   \<and> fst (addFilterExpressionToQuery ''pomerium'' ''records'' \<lparr>query = [], args = []\<rparr>
      (OrFilterExpression [EqualsFilterExpression [''id''] ''a'',
         AndFilterExpression [OtherFilterExpression ''<nil>'', OtherFilterExpression ''int'']]))
     = Some (UnsupportedFilterExpression ''<nil>'')"
proof -
  let ?e = "OrFilterExpression [EqualsFilterExpression [''id''] ''a'',
         AndFilterExpression [OtherFilterExpression ''<nil>'', OtherFilterExpression ''int'']]"
  have n: "unsupportedNodes ?e = [UnsupportedFilterExpression ''<nil>'', UnsupportedFilterExpression ''int'']"
    by code_simp
  have h: "UnsupportedFilterExpression ''<nil>'' \<in> set (unsupportedNodes ?e)"
    unfolding n by simp
  show ?thesis
    using h unknown_variant_fails[OF h, where schemaName = "''pomerium''" and recordsTableName = "''records''"
        and st = "\<lparr>query = [], args = []\<rparr>"]
    unfolding n by simp
qed

subsection \<open>Claim C6\<close>

text \<open>
  Claim C6. For an And or an Or node whose children all compile, the appended text is
  \<open>"( "\<close>, then the fragments of the children in input order, joined by the keyword
  \<open>AND\<close> or \<open>OR\<close> between single spaces, then \<open>" )"\<close>; the fragment of a child is what
  the compiler emits for it with the parameters its preceding siblings have left. Whether
  a child compiles does not depend on the buffers (\<open>err_eq\<close>), so the hypothesis is stated
  at the buffers of the call. The last conjunct is the example of the claim.
\<close>

theorem compound_fragment:
  assumes "\<forall>c\<in>set es. fst (addFilterExpressionToQuery schemaName recordsTableName st c) = None"
  shows "addFilterExpressionToQuery schemaName recordsTableName st (AndFilterExpression es)
      = (None, \<lparr>query = query st @ ''( ''
                   @ strings_Join (childFragments schemaName recordsTableName (args st) es) '' AND ''
                   @ '' )'',
                args = args st @ concat (map equalsValues es)\<rparr>)
    \<and> addFilterExpressionToQuery schemaName recordsTableName st (OrFilterExpression es)
      = (None, \<lparr>query = query st @ ''( ''
                   @ strings_Join (childFragments schemaName recordsTableName (args st) es) '' OR ''
                   @ '' )'',
                args = args st @ concat (map equalsValues es)\<rparr>)
    \<and> addFilterExpressionToQuery schemaName recordsTableName \<lparr>query = [], args = []\<rparr>
        (AndFilterExpression [EqualsFilterExpression [''type''] x, EqualsFilterExpression [''id''] y])
      = (None, \<lparr>query = ''( '' @ schemaName @ ''.'' @ recordsTableName @ ''.type = $1 AND ''
                         @ schemaName @ ''.'' @ recordsTableName @ ''.id = $2 )'',
                args = [x, y]\<rparr>)"
proof -
  from assms have ok: "\<forall>c\<in>set es. unsupportedNodes c = []"
    by (simp add: err_none_iff)
  have r: "compoundExpression_range schemaName recordsTableName op 0 (st\<lparr>query := query st @ ''( ''\<rparr>) es
     = (None, \<lparr>query = query st @ ''( ''
                 @ strings_Join (childFragments schemaName recordsTableName (args st) es) ('' '' @ op @ '' ''),
               args = args st @ concat (map equalsValues es)\<rparr>)" for op
    using range_success[OF ok, of schemaName recordsTableName op 0 "st\<lparr>query := query st @ ''( ''\<rparr>"]
    by simp
  have d1: "Sprintf_dollar_d (Suc 0) = ''$1''" and d2: "Sprintf_dollar_d (Suc (Suc 0)) = ''$2''"
    by code_simp+
  have a: "addFilterExpressionToQuery schemaName recordsTableName st (AndFilterExpression es)
      = (None, \<lparr>query = query st @ ''( ''
                   @ strings_Join (childFragments schemaName recordsTableName (args st) es) '' AND ''
                   @ '' )'',
                args = args st @ concat (map equalsValues es)\<rparr>)"
    using compound_unfold[OF r[of "''AND''"]] by simp
  have b: "addFilterExpressionToQuery schemaName recordsTableName st (OrFilterExpression es)
      = (None, \<lparr>query = query st @ ''( ''
                   @ strings_Join (childFragments schemaName recordsTableName (args st) es) '' OR ''
                   @ '' )'',
                args = args st @ concat (map equalsValues es)\<rparr>)"
    using compound_unfold[OF r[of "''OR''"]] by simp
  have c: "addFilterExpressionToQuery schemaName recordsTableName \<lparr>query = [], args = []\<rparr>
        (AndFilterExpression [EqualsFilterExpression [''type''] x, EqualsFilterExpression [''id''] y])
      = (None, \<lparr>query = ''( '' @ schemaName @ ''.'' @ recordsTableName @ ''.type = $1 AND ''
                         @ schemaName @ ''.'' @ recordsTableName @ ''.id = $2 )'',
                args = [x, y]\<rparr>)"
    by (simp add: Let_def d1 d2)
  from a b c show ?thesis by blast
qed

theorem compound_fragment_witness:
  "childFragments ''pomerium'' ''records'' [''p'']
        [EqualsFilterExpression [''type''] ''x'', AndFilterExpression [EqualsFilterExpression [''id''] ''y''],
         EqualsFilterExpression [''$index''] ''z'']
      = [''pomerium.records.type = $2'', ''( pomerium.records.id = $3 )'', ''pomerium.records.index_cidr >>= $4'']
   \<and> addFilterExpressionToQuery ''pomerium'' ''records'' \<lparr>query = ''WHERE '', args = [''p'']\<rparr>
        (OrFilterExpression [EqualsFilterExpression [''type''] ''x'', AndFilterExpression [EqualsFilterExpression [''id''] ''y''],
               EqualsFilterExpression [''$index''] ''z''])
      = (None, \<lparr>query = ''WHERE ( pomerium.records.type = $2 OR ( pomerium.records.id = $3 ) OR pomerium.records.index_cidr >>= $4 )'',
                args = [''p'', ''x'', ''y'', ''z'']\<rparr>)"
proof -
  let ?es = "[EqualsFilterExpression [''type''] ''x'', AndFilterExpression [EqualsFilterExpression [''id''] ''y''],
               EqualsFilterExpression [''$index''] ''z'']"
  let ?st = "\<lparr>query = ''WHERE '', args = [''p'']\<rparr>"
  have h: "\<forall>c\<in>set ?es. fst (addFilterExpressionToQuery ''pomerium'' ''records'' ?st c) = None"
    by (simp add: err_none_iff supportedKey_def)
  have f: "childFragments ''pomerium'' ''records'' [''p''] ?es
      = [''pomerium.records.type = $2'', ''( pomerium.records.id = $3 )'', ''pomerium.records.index_cidr >>= $4'']"
    by code_simp
  from compound_fragment[OF h, THEN conjunct2, THEN conjunct1]
  have "addFilterExpressionToQuery ''pomerium'' ''records'' ?st (OrFilterExpression ?es)
      = (None, \<lparr>query = query ?st @ ''( ''
                   @ strings_Join (childFragments ''pomerium'' ''records'' (args ?st) ?es) '' OR ''
                   @ '' )'',
                args = args ?st @ concat (map equalsValues ?es)\<rparr>)" .
  then have "addFilterExpressionToQuery ''pomerium'' ''records'' ?st (OrFilterExpression ?es)
      = (None, \<lparr>query = ''WHERE ( pomerium.records.type = $2 OR ( pomerium.records.id = $3 ) OR pomerium.records.index_cidr >>= $4 )'',
                args = [''p'', ''x'', ''y'', ''z'']\<rparr>)"
    using f by (simp del: addFilterExpressionToQuery.simps childFragments.simps)
  with f show ?thesis by simp
qed

subsection \<open>Claim C7\<close>

text \<open>
  Claim C7. When compilation succeeds, the parameter list is the one before the call
  followed by the values of the Equals nodes of the tree in pre-order, left to right.
\<close>

theorem parameters_in_preorder:
  assumes "fst (addFilterExpressionToQuery schemaName recordsTableName st e) = None"
  shows "args (snd (addFilterExpressionToQuery schemaName recordsTableName st e)) = args st @ equalsValues e"
  using assms by (rule args_success(1))

theorem parameters_in_preorder_witness:
  "fst (addFilterExpressionToQuery ''pomerium'' ''records'' \<lparr>query = [], args = [''p'']\<rparr>
     (OrFilterExpression [AndFilterExpression [EqualsFilterExpression [''id''] ''a'', EqualsFilterExpression [''$index''] ''b''],
        EqualsFilterExpression [''type''] ''c''])) = None
   \<and> args (snd (addFilterExpressionToQuery ''pomerium'' ''records'' \<lparr>query = [], args = [''p'']\<rparr>
     (OrFilterExpression [AndFilterExpression [EqualsFilterExpression [''id''] ''a'', EqualsFilterExpression [''$index''] ''b''],
        EqualsFilterExpression [''type''] ''c'']))) = [''p'', ''a'', ''b'', ''c'']"
proof -
  let ?e = "OrFilterExpression [AndFilterExpression [EqualsFilterExpression [''id''] ''a'', EqualsFilterExpression [''$index''] ''b''],
        EqualsFilterExpression [''type''] ''c'']"
  have h: "fst (addFilterExpressionToQuery ''pomerium'' ''records'' \<lparr>query = [], args = [''p'']\<rparr> ?e) = None"
    by (simp add: err_none_iff supportedKey_def)
  show ?thesis
    using h parameters_in_preorder[OF h] by simp
qed

subsection \<open>Claim C8\<close>

text \<open>
  Claim C8 says that a compound node without children emits \<open>( )\<close>, with a single space.
  The closure appends \<open>"( "\<close> before the loop and \<open>" )"\<close> after it, so with no child in
  between the text has two spaces.
\<close>

theorem empty_compound_counterexample:
  "addFilterExpressionToQuery ''pomerium'' ''records'' \<lparr>query = [], args = []\<rparr>
       (AndFilterExpression ([] :: string FilterExpression list))
     = (None, \<lparr>query = ''(  )'', args = []\<rparr>)
   \<and> addFilterExpressionToQuery ''pomerium'' ''records'' \<lparr>query = [], args = []\<rparr>
       (OrFilterExpression ([] :: string FilterExpression list))
     = (None, \<lparr>query = ''(  )'', args = []\<rparr>)
   \<and> ''(  )'' \<noteq> ''( )''"
  by simp

text \<open>
  Claim C8, amended. For an And or an Or node with zero children compilation succeeds and
  appends exactly \<open>(  )\<close>: an opening parenthesis, two spaces and a closing parenthesis,
  with no operator keyword; the parameter list is unchanged.
\<close>

theorem empty_compound_two_spaces:
  "addFilterExpressionToQuery schemaName recordsTableName st (AndFilterExpression [])
     = (None, \<lparr>query = query st @ ''(  )'', args = args st\<rparr>)
   \<and> addFilterExpressionToQuery schemaName recordsTableName st (OrFilterExpression [])
     = (None, \<lparr>query = query st @ ''(  )'', args = args st\<rparr>)"
  by simp

theorem empty_compound_two_spaces_witness:
  "addFilterExpressionToQuery ''pomerium'' ''records'' \<lparr>query = ''WHERE '', args = [''a'']\<rparr> (AndFilterExpression [])
     = (None, \<lparr>query = ''WHERE (  )'', args = [''a'']\<rparr>)"
  using empty_compound_two_spaces[where schemaName = "''pomerium''" and recordsTableName = "''records''"
      and st = "\<lparr>query = ''WHERE '', args = [''a'']\<rparr>"]
  by simp

subsection \<open>Claim C9\<close>

text \<open>
  Claim C9. An Equals node compiles successfully if and only if its field path is exactly
  the singleton \<open>["type"]\<close>, \<open>["id"]\<close> or \<open>["$index"]\<close>. The segments are joined with a dot
  before the lookup, so the empty path and every path of several segments fail with the
  unsupported-field error carrying the path, the buffers untouched.
\<close>

theorem equals_supported_iff_singleton_key:
  "(fst (addFilterExpressionToQuery schemaName recordsTableName st (EqualsFilterExpression fs v)) = None
      \<longleftrightarrow> fs = [''type''] \<or> fs = [''id''] \<or> fs = [''$index''])
   \<and> (length fs \<noteq> 1 \<longrightarrow>
        addFilterExpressionToQuery schemaName recordsTableName st (EqualsFilterExpression fs v)
          = (Some (UnsupportedEqualsFilter fs), st))"
proof -
  have a: "fst (addFilterExpressionToQuery schemaName recordsTableName st (EqualsFilterExpression fs v)) = None
      \<longleftrightarrow> fs = [''type''] \<or> fs = [''id''] \<or> fs = [''$index'']"
    unfolding err_none_iff by (simp add: supportedKey_iff)
  have b: "addFilterExpressionToQuery schemaName recordsTableName st (EqualsFilterExpression fs v)
          = (Some (UnsupportedEqualsFilter fs), st)" if "length fs \<noteq> 1"
  proof -
    from that have "\<not> supportedKey (strings_Join fs ''.'')"
      by (auto simp: supportedKey_iff)
    then show ?thesis by (simp add: supportedKey_def Let_def)
  qed
  from a b show ?thesis by blast
qed

theorem equals_supported_iff_singleton_key_witness:
  "fst (addFilterExpressionToQuery ''pomerium'' ''records'' \<lparr>query = [], args = []\<rparr>
          (EqualsFilterExpression [''id''] ''v'')) = None
   \<and> addFilterExpressionToQuery ''pomerium'' ''records'' \<lparr>query = [], args = []\<rparr>
          (EqualsFilterExpression [''ty'', ''pe''] ''v'')
        = (Some (UnsupportedEqualsFilter [''ty'', ''pe'']), \<lparr>query = [], args = []\<rparr>)
   \<and> addFilterExpressionToQuery ''pomerium'' ''records'' \<lparr>query = [], args = []\<rparr>
          (EqualsFilterExpression [] ''v'')
        = (Some (UnsupportedEqualsFilter []), \<lparr>query = [], args = []\<rparr>)"
  using equals_supported_iff_singleton_key[where schemaName = "''pomerium''" and recordsTableName = "''records''"
      and st = "\<lparr>query = [], args = []\<rparr>" and fs = "[''id'']" and v = "''v''"]
    equals_supported_iff_singleton_key[where schemaName = "''pomerium''" and recordsTableName = "''records''"
      and st = "\<lparr>query = [], args = []\<rparr>" and fs = "[''ty'', ''pe'']" and v = "''v''"]
    equals_supported_iff_singleton_key[where schemaName = "''pomerium''" and recordsTableName = "''records''"
      and st = "\<lparr>query = [], args = []\<rparr>" and fs = "[]" and v = "''v''"]
  by simp

subsection \<open>Claim C10\<close>

text \<open>
  Claim C10. Whether a call succeeds or fails, the query text before it is a prefix of the
  query text after it, and likewise for the parameter list. In particular, when the
  children \<open>pre\<close> of a compound node compile and the next child \<open>c\<close> fails, the node fails
  with the error of \<open>c\<close>, and the text left behind is the old text, the opening \<open>"( "\<close>, and
  the fragments of \<open>pre\<close> and what \<open>c\<close> had emitted, joined by the keyword, with no closing
  parenthesis; the parameter list left behind extends the old one followed by the values
  of \<open>pre\<close>.
\<close>

theorem only_appends:
  "prefix (query st) (query (snd (addFilterExpressionToQuery schemaName recordsTableName st e)))
   \<and> prefix (args st) (args (snd (addFilterExpressionToQuery schemaName recordsTableName st e)))
   \<and> ((\<forall>x\<in>set pre. fst (addFilterExpressionToQuery schemaName recordsTableName st x) = None)
        \<and> fst (addFilterExpressionToQuery schemaName recordsTableName st c) \<noteq> None \<longrightarrow>
       addFilterExpressionToQuery schemaName recordsTableName st (AndFilterExpression (pre @ c # post))
         = (fst (addFilterExpressionToQuery schemaName recordsTableName st c),
            \<lparr>query = query st @ ''( ''
                @ strings_Join (childFragments schemaName recordsTableName (args st) (pre @ [c])) '' AND '',
             args = args (snd (addFilterExpressionToQuery schemaName recordsTableName
                \<lparr>query = [], args = args st @ concat (map equalsValues pre)\<rparr> c))\<rparr>)
     \<and> addFilterExpressionToQuery schemaName recordsTableName st (OrFilterExpression (pre @ c # post))
         = (fst (addFilterExpressionToQuery schemaName recordsTableName st c),
            \<lparr>query = query st @ ''( ''
                @ strings_Join (childFragments schemaName recordsTableName (args st) (pre @ [c])) '' OR '',
             args = args (snd (addFilterExpressionToQuery schemaName recordsTableName
                \<lparr>query = [], args = args st @ concat (map equalsValues pre)\<rparr> c))\<rparr>)
     \<and> childFragments schemaName recordsTableName (args st) (pre @ [c])
         = childFragments schemaName recordsTableName (args st) pre
           @ [emitted schemaName recordsTableName (args st @ concat (map equalsValues pre)) c]
     \<and> prefix (args st @ concat (map equalsValues pre))
          (args (snd (addFilterExpressionToQuery schemaName recordsTableName
                \<lparr>query = [], args = args st @ concat (map equalsValues pre)\<rparr> c))))"
proof -
  have g: "grows st (addFilterExpressionToQuery schemaName recordsTableName st e)"
    by (rule only_grows(1))
  have part: "addFilterExpressionToQuery schemaName recordsTableName st (AndFilterExpression (pre @ c # post))
         = (fst (addFilterExpressionToQuery schemaName recordsTableName st c),
            \<lparr>query = query st @ ''( ''
                @ strings_Join (childFragments schemaName recordsTableName (args st) (pre @ [c])) '' AND '',
             args = args (snd (addFilterExpressionToQuery schemaName recordsTableName
                \<lparr>query = [], args = args st @ concat (map equalsValues pre)\<rparr> c))\<rparr>)
     \<and> addFilterExpressionToQuery schemaName recordsTableName st (OrFilterExpression (pre @ c # post))
         = (fst (addFilterExpressionToQuery schemaName recordsTableName st c),
            \<lparr>query = query st @ ''( ''
                @ strings_Join (childFragments schemaName recordsTableName (args st) (pre @ [c])) '' OR '',
             args = args (snd (addFilterExpressionToQuery schemaName recordsTableName
                \<lparr>query = [], args = args st @ concat (map equalsValues pre)\<rparr> c))\<rparr>)
     \<and> childFragments schemaName recordsTableName (args st) (pre @ [c])
         = childFragments schemaName recordsTableName (args st) pre
           @ [emitted schemaName recordsTableName (args st @ concat (map equalsValues pre)) c]
     \<and> prefix (args st @ concat (map equalsValues pre))
          (args (snd (addFilterExpressionToQuery schemaName recordsTableName
                \<lparr>query = [], args = args st @ concat (map equalsValues pre)\<rparr> c)))"
    if ok: "\<forall>x\<in>set pre. fst (addFilterExpressionToQuery schemaName recordsTableName st x) = None"
      and bad: "fst (addFilterExpressionToQuery schemaName recordsTableName st c) \<noteq> None"
  proof -
    from ok have pre: "\<forall>x\<in>set pre. unsupportedNodes x = []" by (simp add: err_none_iff)
    from bad have c: "unsupportedNodes c \<noteq> []" by (simp add: err_none_iff)
    have e: "fst (addFilterExpressionToQuery schemaName recordsTableName st c) = Some (hd (unsupportedNodes c))"
      by (rule err_first_node[OF c])
    have fr: "childFragments schemaName recordsTableName (args st) (pre @ [c])
         = childFragments schemaName recordsTableName (args st) pre
           @ [emitted schemaName recordsTableName (args st @ concat (map equalsValues pre)) c]"
      by (simp add: childFragments_append[OF pre])
    have "grows \<lparr>query = [], args = args st @ concat (map equalsValues pre)\<rparr>
            (addFilterExpressionToQuery schemaName recordsTableName
                \<lparr>query = [], args = args st @ concat (map equalsValues pre)\<rparr> c)"
      by (rule only_grows(1))
    then have pa: "prefix (args st @ concat (map equalsValues pre))
          (args (snd (addFilterExpressionToQuery schemaName recordsTableName
                \<lparr>query = [], args = args st @ concat (map equalsValues pre)\<rparr> c)))"
      by (simp add: grows_def)
    show ?thesis
      unfolding e using compound_fail[OF pre c, of schemaName recordsTableName st post] fr pa
      by (simp del: childFragments.simps)
  qed
  from g part show ?thesis
    unfolding grows_def by blast
qed

theorem only_appends_witness:
  "addFilterExpressionToQuery ''pomerium'' ''records'' \<lparr>query = ''WHERE '', args = [''p'']\<rparr>
     (AndFilterExpression ([EqualsFilterExpression [''type''] ''x'', EqualsFilterExpression [''id''] ''y'']
        @ OrFilterExpression [EqualsFilterExpression [''$index''] ''z'', EqualsFilterExpression [''nope''] ''w'']
        # [EqualsFilterExpression [''id''] ''u'']))
   = (Some (UnsupportedEqualsFilter [''nope'']),
      \<lparr>query = ''WHERE ( pomerium.records.type = $2 AND pomerium.records.id = $3 AND ( pomerium.records.index_cidr >>= $4 OR '',
       args = [''p'', ''x'', ''y'', ''z'']\<rparr>)"
proof -
  let ?st = "\<lparr>query = ''WHERE '', args = [''p'']\<rparr>"
  let ?pre = "[EqualsFilterExpression [''type''] ''x'', EqualsFilterExpression [''id''] ''y'']"
  let ?c = "OrFilterExpression [EqualsFilterExpression [''$index''] ''z'', EqualsFilterExpression [''nope''] ''w'']"
  let ?post = "[EqualsFilterExpression [''id''] ''u'']"
  have h1: "\<forall>x\<in>set ?pre. fst (addFilterExpressionToQuery ''pomerium'' ''records'' ?st x) = None"
    by (simp add: err_none_iff supportedKey_def)
  have h2: "fst (addFilterExpressionToQuery ''pomerium'' ''records'' ?st ?c) \<noteq> None"
    by (simp add: err_none_iff supportedKey_def)
  have e: "fst (addFilterExpressionToQuery ''pomerium'' ''records'' ?st ?c) = Some (UnsupportedEqualsFilter [''nope''])"
    by code_simp
  have f: "childFragments ''pomerium'' ''records'' (args ?st) (?pre @ [?c])
       = [''pomerium.records.type = $2'', ''pomerium.records.id = $3'', ''( pomerium.records.index_cidr >>= $4 OR '']"
    by code_simp
  have a: "args (snd (addFilterExpressionToQuery ''pomerium'' ''records''
                \<lparr>query = [], args = args ?st @ concat (map equalsValues ?pre)\<rparr> ?c)) = [''p'', ''x'', ''y'', ''z'']"
    by code_simp
  from only_appends[where schemaName = "''pomerium''" and recordsTableName = "''records''" and st = ?st
      and pre = ?pre and c = ?c and post = ?post and e = ?c] h1 h2
  have "addFilterExpressionToQuery ''pomerium'' ''records'' ?st (AndFilterExpression (?pre @ ?c # ?post))
         = (fst (addFilterExpressionToQuery ''pomerium'' ''records'' ?st ?c),
            \<lparr>query = query ?st @ ''( ''
                @ strings_Join (childFragments ''pomerium'' ''records'' (args ?st) (?pre @ [?c])) '' AND '',
             args = args (snd (addFilterExpressionToQuery ''pomerium'' ''records''
                \<lparr>query = [], args = args ?st @ concat (map equalsValues ?pre)\<rparr> ?c))\<rparr>)"
    by blast
  then show ?thesis
    unfolding e f a by simp
qed

end
